theory Spec2Isabelle
  imports Main "HOL-Library.AList" "HOL-Library.FSet"
begin

section \<open>The about:trackers add-on (aboutTrackers/lib/main.js)\<close>

text \<open>
  The add-on watches third-party loads through a content policy (\<open>shouldLoad\<close>), records
  which tracker domain was seen on which site (\<open>storage.trackers\<close>), decides per tracker
  whether to strip cookies or to reject the connection (\<open>updateAutoBlock\<close>, result kept in
  \<open>storage.blocked\<close>), and strips the cookie header of the next request through a one-slot
  variable (\<open>unCookieNext\<close>, read by the \<open>http-on-modify-request\<close> observer).

  The module-level variables and the persistent \<open>storage\<close> object become one record that
  every operation takes and returns. A JavaScript exception is a value \<open>Inl e\<close>; the state
  reached when it was thrown is returned beside it, since a \<open>catch\<close> does not undo writes.
\<close>

subsection \<open>Values and constants\<close>

text \<open>
  What \<open>storage.blocked[tracker]\<close> can hold: \<open>undefined\<close>, one of the two string tags written
  by \<open>updateAutoBlock\<close>, or the number written by \<open>toggle_block\<close>. Numbers are integers here
  (the code only writes \<open>+!x\<close>, that is 0 or 1).
\<close>

datatype jsval = Undefined | Str string | Num int

definition AUTO_BLOCK_COOKIE :: string where
  "AUTO_BLOCK_COOKIE = ''cookie''"

definition AUTO_BLOCK_CONNECTION :: string where
  "AUTO_BLOCK_CONNECTION = ''connection''"

definition CONNECTION_MULTIPLIER :: int where
  "CONNECTION_MULTIPLIER = 2"

definition DEFAULT_AUTO_BLOCK_THRESHOLD :: int where
  "DEFAULT_AUTO_BLOCK_THRESHOLD = 5"

definition RELOAD_AUTO_ACCEPT_DURATION :: nat where
  "RELOAD_AUTO_ACCEPT_DURATION = 10000"

text \<open>\<open>Ci.nsIContentPolicy.TYPE_DOCUMENT\<close>.\<close>

definition TYPE_DOCUMENT :: nat where
  "TYPE_DOCUMENT = 6"

datatype verdict = ACCEPT | REJECT_REQUEST

datatype exn = TypeError | ServiceFailure

text \<open>\<open>typeof v == "number"\<close>.\<close>

fun typeof_number :: "jsval \<Rightarrow> bool" where
  "typeof_number (Num n) = True"
| "typeof_number Undefined = False"
| "typeof_number (Str s) = False"

text \<open>JavaScript truthiness of a stored value: \<open>if (v)\<close> and \<open>!v\<close>.\<close>

fun truthy :: "jsval \<Rightarrow> bool" where
  "truthy Undefined = False"
| "truthy (Str s) = (s \<noteq> [])"
| "truthy (Num n) = (n \<noteq> 0)"

subsection \<open>Levels\<close>

text \<open>
  The stored value read as an enforcement level, the way lines 128-136 read it: equal to
  the cookie tag is cookie blocking, any other truthy value rejects the connection,
  everything else does nothing. A number is a value the user set (line 302).
\<close>

datatype level = NoLevel | CookieLevel | ConnectionLevel

datatype origin = Auto | UserSet

definition level_of :: "jsval \<Rightarrow> level" where
  "level_of v =
     (if v = Str AUTO_BLOCK_COOKIE then CookieLevel
      else if truthy v then ConnectionLevel
      else NoLevel)"

definition origin_of :: "jsval \<Rightarrow> origin" where
  "origin_of v = (if typeof_number v then UserSet else Auto)"

text \<open>The value \<open>updateAutoBlock\<close> writes for a level (\<open>newBlocked\<close>).\<close>

fun auto_value :: "level \<Rightarrow> jsval" where
  "auto_value NoLevel = Undefined"
| "auto_value CookieLevel = Str AUTO_BLOCK_COOKIE"
| "auto_value ConnectionLevel = Str AUTO_BLOCK_CONNECTION"

fun rank :: "level \<Rightarrow> nat" where
  "rank NoLevel = 0"
| "rank CookieLevel = 1"
| "rank ConnectionLevel = 2"

subsection \<open>State\<close>

text \<open>
  \<open>storage.trackers\<close> is an object whose keys are enumerated (\<open>Object.keys\<close>), so it is an
  association list in insertion order; \<open>AList.update\<close> is property assignment (overwrite
  in place, or append a new key). Each entry is an object \<open>{site: 1, ...}\<close> of which only the
  key set is read: a finite set. \<open>storage.blocked\<close> is only read by key: a map, where a key
  assigned \<open>undefined\<close> holds \<open>Some Undefined\<close>. \<open>allTracked\<close> and the two \<open>domainPrefs\<close>
  objects hold \<open>true\<close> at every key they have: sets. \<open>timers\<close> are the due times of the
  pending \<open>setTimeout\<close> callbacks of \<open>onReload\<close> (all the same closure).
\<close>

record state =
  autoBlockThreshold :: int
  blocked :: "string \<rightharpoonup> jsval"
  trackers :: "(string \<times> string fset) list"
  allTracked :: "string set"
  unCookieNext :: "string option"
  acceptForReload :: bool
  knownNotTrackers :: "string set"
  potentialTrackers :: "string set"
  timers :: "nat list"

text \<open>The platform services the code calls; each call may throw.\<close>

record services =
  getBaseDomain :: "string \<Rightarrow> exn + string"
  getBaseDomainFromHost :: "string \<Rightarrow> exn + string"
  countCookiesFromHost :: "string \<Rightarrow> exn + nat"

text \<open>
  What \<open>shouldLoad\<close> reads of its arguments: the content type, \<open>contentLocation\<close> (its
  \<open>spec\<close>, which is also what \<open>getBaseDomain\<close> is applied to), and the top window reached
  through \<open>context\<close> (the property chain throws on a context without a view).
\<close>

record window =
  isPrivate :: bool
  location_host :: "exn + string"

record request =
  contentType :: nat
  contentLocation :: string
  topWindow :: "exn + window"

text \<open>\<open>storage.blocked[tracker]\<close>: a missing key reads as \<open>undefined\<close>.\<close>

definition get_blocked :: "state \<Rightarrow> string \<Rightarrow> jsval" where
  "get_blocked s tracker = (case blocked s tracker of None \<Rightarrow> Undefined | Some v \<Rightarrow> v)"

subsection \<open>The auto-block decision\<close>

text \<open>\<open>isCookied\<close> (lines 292-294).\<close>

definition isCookied :: "services \<Rightarrow> string \<Rightarrow> exn + bool" where
  "isCookied sv tracker =
     (case countCookiesFromHost sv tracker of Inl e \<Rightarrow> Inl e | Inr n \<Rightarrow> Inr (n > 0))"

text \<open>
  Lines 306-326 of \<open>updateAutoBlock\<close>: the value of \<open>newBlocked\<close>.
  \<open>Object.keys(storage.trackers[tracker])\<close> throws a TypeError when the tracker has no
  entry. The threshold is taken to be an integer.
\<close>

definition newBlocked :: "services \<Rightarrow> string \<Rightarrow> state \<Rightarrow> exn + jsval" where
  "newBlocked sv tracker s =
     (case isCookied sv tracker of
        Inl e \<Rightarrow> Inl e
      | Inr cookied \<Rightarrow>
          if cookied then
            (case map_of (trackers s) tracker of
               None \<Rightarrow> Inl TypeError
             | Some sites \<Rightarrow>
                 (let numTracked = int (fcard sites) in
                  if numTracked \<ge> autoBlockThreshold s * CONNECTION_MULTIPLIER then
                    (if tracker \<in> allTracked s then Inr (Str AUTO_BLOCK_COOKIE)
                     else Inr (Str AUTO_BLOCK_CONNECTION))
                  else if numTracked \<ge> autoBlockThreshold s then Inr (Str AUTO_BLOCK_COOKIE)
                  else Inr Undefined))
          else Inr Undefined)"

text \<open>
  \<open>updateAutoBlock\<close> (lines 299-334). \<open>newBlocked != oldBlocked\<close> compares \<open>undefined\<close> or a
  string tag with a value that is not a number, where loose inequality is plain
  inequality.
\<close>

definition updateAutoBlock :: "services \<Rightarrow> string \<Rightarrow> state \<Rightarrow> (exn + bool) \<times> state" where
  "updateAutoBlock sv tracker s =
     (let oldBlocked = get_blocked s tracker in
      if typeof_number oldBlocked then (Inr False, s)
      else
        (case newBlocked sv tracker s of
           Inl e \<Rightarrow> (Inl e, s)
         | Inr nb \<Rightarrow>
             if nb \<noteq> oldBlocked then (Inr True, s\<lparr>blocked := (blocked s)(tracker \<mapsto> nb)\<rparr>)
             else (Inr False, s)))"

text \<open>
  \<open>updateAllAutoBlocked\<close> (lines 230-237): \<open>forEach\<close> over the keys of \<open>storage.trackers\<close>;
  an exception leaves the loop. The \<open>update_block\<close> messages sent to the page are not part
  of the state and are left out.
\<close>

fun updateAll_keys :: "services \<Rightarrow> string list \<Rightarrow> state \<Rightarrow> (exn + unit) \<times> state" where
  "updateAll_keys sv [] s = (Inr (), s)"
| "updateAll_keys sv (tracker # rest) s =
     (case updateAutoBlock sv tracker s of
        (Inl e, s') \<Rightarrow> (Inl e, s')
      | (Inr changed, s') \<Rightarrow> updateAll_keys sv rest s')"

definition updateAllAutoBlocked :: "services \<Rightarrow> state \<Rightarrow> (exn + unit) \<times> state" where
  "updateAllAutoBlocked sv s = updateAll_keys sv (map fst (trackers s)) s"

text \<open>The page's messages (lines 211-227).\<close>

definition reset :: "services \<Rightarrow> state \<Rightarrow> (exn + unit) \<times> state" where
  "reset sv s =
     updateAllAutoBlocked sv
       (s\<lparr>autoBlockThreshold := DEFAULT_AUTO_BLOCK_THRESHOLD, blocked := Map.empty\<rparr>)"

definition set_threshold :: "services \<Rightarrow> int \<Rightarrow> state \<Rightarrow> (exn + unit) \<times> state" where
  "set_threshold sv threshold s = updateAllAutoBlocked sv (s\<lparr>autoBlockThreshold := threshold\<rparr>)"

definition toggle_block :: "string \<Rightarrow> state \<Rightarrow> state" where
  "toggle_block tracker s =
     s\<lparr>blocked := (blocked s)(tracker \<mapsto> Num (if truthy (get_blocked s tracker) then 0 else 1))\<rparr>"

subsection \<open>The content policy\<close>

text \<open>
  Lines 91-113 of \<open>shouldLoad\<close>: the checks that accept early. They write nothing. The
  result is an exception, \<open>None\<close> for an early \<open>ACCEPT\<close>, or the tracker domain and the
  context domain of a third-party request.
\<close>

definition classify :: "services \<Rightarrow> request \<Rightarrow> state \<Rightarrow> exn + (string \<times> string) option" where
  "classify sv rq s =
     (if contentType rq = TYPE_DOCUMENT then Inr None
      else
        (case topWindow rq of
           Inl e \<Rightarrow> Inl e
         | Inr w \<Rightarrow>
             if isPrivate w then Inr None
             else
               (case getBaseDomain sv (contentLocation rq) of
                  Inl e \<Rightarrow> Inl e
                | Inr trackerDomain \<Rightarrow>
                    (case location_host w of
                       Inl e \<Rightarrow> Inl e
                     | Inr topLevel \<Rightarrow>
                         (case getBaseDomainFromHost sv topLevel of
                            Inl e \<Rightarrow> Inl e
                          | Inr contextDomain \<Rightarrow>
                              if trackerDomain = contextDomain then Inr None
                              else if trackerDomain \<in> knownNotTrackers s then Inr None
                              else Inr (Some (trackerDomain, contextDomain)))))))"

text \<open>The site set of a tracker; \<open>None\<close> when \<open>storage.trackers[tracker] == null\<close>.\<close>

definition sitesOf :: "state \<Rightarrow> string \<Rightarrow> string fset option" where
  "sitesOf s tracker = map_of (trackers s) tracker"

text \<open>\<open>Object.keys(storage.trackers[tracker]).length\<close> where the entry exists, 0 where not.\<close>

definition countSites :: "state \<Rightarrow> string \<Rightarrow> int" where
  "countSites s tracker = (case sitesOf s tracker of None \<Rightarrow> 0 | Some sites \<Rightarrow> int (fcard sites))"

text \<open>Whether the site is recorded for the tracker (what line 121 tests).\<close>

definition observed :: "state \<Rightarrow> string \<Rightarrow> string \<Rightarrow> bool" where
  "observed s tracker site =
     (case sitesOf s tracker of None \<Rightarrow> False | Some sites \<Rightarrow> site |\<in>| sites)"

text \<open>Lines 116-118: a new tracker gets an empty entry.\<close>

definition initTracker :: "string \<Rightarrow> state \<Rightarrow> state" where
  "initTracker trackerDomain s =
     (if sitesOf s trackerDomain = None
      then s\<lparr>trackers := AList.update trackerDomain {||} (trackers s)\<rparr>
      else s)"

text \<open>Lines 122-123: the site is added to the tracker's entry and marked as tracked.\<close>

definition addSite :: "string \<Rightarrow> string \<Rightarrow> state \<Rightarrow> state" where
  "addSite trackerDomain contextDomain s =
     s\<lparr>trackers :=
          AList.update trackerDomain
            (finsert contextDomain (case sitesOf s trackerDomain of None \<Rightarrow> {||} | Some sites \<Rightarrow> sites))
            (trackers s),
       allTracked := insert contextDomain (allTracked s)\<rparr>"

text \<open>
  Lines 115-125: create the tracker's entry, and if the site is new in it, add it, mark
  the site as tracked and call \<open>updateAutoBlock\<close> (whose result is dropped).
\<close>

definition recordTracked :: "services \<Rightarrow> string \<Rightarrow> string \<Rightarrow> state \<Rightarrow> (exn + unit) \<times> state" where
  "recordTracked sv trackerDomain contextDomain s =
     (let s1 = initTracker trackerDomain s in
      if \<not> observed s1 trackerDomain contextDomain then
        (case updateAutoBlock sv trackerDomain (addSite trackerDomain contextDomain s1) of
           (Inl e, s2) \<Rightarrow> (Inl e, s2)
         | (Inr changed, s2) \<Rightarrow> (Inr (), s2))
      else (Inr (), s1))"

text \<open>Line 130: the slot is overwritten.\<close>

definition arm :: "string \<Rightarrow> state \<Rightarrow> state" where
  "arm url s = s\<lparr>unCookieNext := Some url\<rparr>"

text \<open>
  Lines 127-136. \<open>storage.blocked[t] == AUTO_BLOCK_COOKIE\<close> holds for that string only (a
  number never equals it: the string converts to NaN). \<open>None\<close> is falling out of the
  \<open>try\<close> block.
\<close>

definition checkBlocked :: "string \<Rightarrow> string \<Rightarrow> state \<Rightarrow> verdict option \<times> state" where
  "checkBlocked trackerDomain url s =
     (if get_blocked s trackerDomain = Str AUTO_BLOCK_COOKIE \<or> trackerDomain \<in> potentialTrackers s
      then (Some ACCEPT, arm url s)
      else if truthy (get_blocked s trackerDomain) then (Some REJECT_REQUEST, s)
      else (None, s))"

text \<open>The body of the \<open>try\<close> block (lines 91-136).\<close>

definition shouldLoad_try :: "services \<Rightarrow> request \<Rightarrow> state \<Rightarrow> (exn + verdict option) \<times> state" where
  "shouldLoad_try sv rq s =
     (case classify sv rq s of
        Inl e \<Rightarrow> (Inl e, s)
      | Inr None \<Rightarrow> (Inr (Some ACCEPT), s)
      | Inr (Some (trackerDomain, contextDomain)) \<Rightarrow>
          (case recordTracked sv trackerDomain contextDomain s of
             (Inl e, s') \<Rightarrow> (Inl e, s')
           | (Inr u, s') \<Rightarrow>
               (case checkBlocked trackerDomain (contentLocation rq) s' of
                  (r, s'') \<Rightarrow> (Inr r, s''))))"

text \<open>\<open>shouldLoad\<close> (lines 84-140): the reload check, the \<open>try\<close>, \<open>catch(ex) {}\<close>, \<open>ACCEPT\<close>.\<close>

definition shouldLoad :: "services \<Rightarrow> request \<Rightarrow> state \<Rightarrow> verdict \<times> state" where
  "shouldLoad sv rq s =
     (if acceptForReload s then (ACCEPT, s)
      else
        (case shouldLoad_try sv rq s of
           (Inr (Some v), s') \<Rightarrow> (v, s')
         | (Inr None, s') \<Rightarrow> (ACCEPT, s')
         | (Inl e, s') \<Rightarrow> (ACCEPT, s')))"

subsection \<open>The cookie remover\<close>

text \<open>
  \<open>unCookier\<close> (lines 158-172), given \<open>httpChannel.originalURI.spec\<close>. The result says
  whether the cookie header was emptied.
\<close>

definition unCookier :: "string \<Rightarrow> state \<Rightarrow> bool \<times> state" where
  "unCookier uri s =
     (case unCookieNext s of
        None \<Rightarrow> (False, s)
      | Some u \<Rightarrow> (uri = u, s\<lparr>unCookieNext := None\<rparr>))"

subsection \<open>Reload\<close>

text \<open>
  \<open>onReload\<close> (lines 244-249) at time \<open>now\<close> (milliseconds): set the flag and schedule a
  callback. \<open>runTimers\<close> is the event loop at time \<open>now\<close>: every callback that is due runs
  (each sets the flag to false) and is removed.
\<close>

definition onReload :: "nat \<Rightarrow> state \<Rightarrow> state" where
  "onReload now s =
     s\<lparr>acceptForReload := True, timers := timers s @ [now + RELOAD_AUTO_ACCEPT_DURATION]\<rparr>"

definition runTimers :: "nat \<Rightarrow> state \<Rightarrow> state" where
  "runTimers now s =
     (if \<exists>due \<in> set (timers s). due \<le> now
      then s\<lparr>acceptForReload := False, timers := filter (\<lambda>due. now < due) (timers s)\<rparr>
      else s)"

text \<open>\<open>updateDomains\<close> (lines 271-284), given the domains the preference string splits into.\<close>

definition updateDomains :: "bool \<Rightarrow> string list \<Rightarrow> state \<Rightarrow> state" where
  "updateDomains known domains s =
     (if known then s\<lparr>knownNotTrackers := set domains\<rparr>
      else s\<lparr>potentialTrackers := set domains\<rparr>)"

subsection \<open>Start-up\<close>

text \<open>
  \<open>exports.main\<close> (lines 34-58 and the initial values of the module variables), given what
  simple-storage holds (\<open>None\<close> for a missing key) and the two domain lists of the
  preferences.
\<close>

definition main_init ::
  "int option \<Rightarrow> (string \<rightharpoonup> jsval) option \<Rightarrow> (string \<times> string fset) list option \<Rightarrow>
   string list \<Rightarrow> string list \<Rightarrow> state" where
  "main_init threshold0 blocked0 trackers0 known potential =
     (let ts = (case trackers0 of None \<Rightarrow> [] | Some x \<Rightarrow> x) in
      \<lparr>autoBlockThreshold = (case threshold0 of None \<Rightarrow> DEFAULT_AUTO_BLOCK_THRESHOLD | Some n \<Rightarrow> n),
       blocked = (case blocked0 of None \<Rightarrow> Map.empty | Some b \<Rightarrow> b),
       trackers = ts,
       allTracked = (\<Union>p \<in> set ts. fset (snd p)),
       unCookieNext = None,
       acceptForReload = False,
       knownNotTrackers = set known,
       potentialTrackers = set potential,
       timers = []\<rparr>)"

subsection \<open>Runs\<close>

text \<open>
  The callbacks the platform invokes, one at a time (the add-on runs on one thread). A
  handler that throws leaves the state as it was at the throw.
\<close>

datatype event =
    ShouldLoad services request
  | ModifyRequest string
  | SetThreshold services int
  | ToggleBlock string
  | Reset services
  | Reload nat
  | Timers nat
  | DomainsChanged bool "string list"

fun step :: "event \<Rightarrow> state \<Rightarrow> state" where
  "step (ShouldLoad sv rq) s = snd (shouldLoad sv rq s)"
| "step (ModifyRequest uri) s = snd (unCookier uri s)"
| "step (SetThreshold sv threshold) s = snd (set_threshold sv threshold s)"
| "step (ToggleBlock tracker) s = toggle_block tracker s"
| "step (Reset sv) s = snd (reset sv s)"
| "step (Reload now) s = onReload now s"
| "step (Timers now) s = runTimers now s"
| "step (DomainsChanged known domains) s = updateDomains known domains s"

fun run :: "event list \<Rightarrow> state \<Rightarrow> state" where
  "run [] s = s"
| "run (ev # evs) s = run evs (step ev s)"

text \<open>The user's actions on the entry of a tracker: the toggle of that tracker, and reset.\<close>

fun userActionOn :: "string \<Rightarrow> event \<Rightarrow> bool" where
  "userActionOn tracker (ToggleBlock t) = (t = tracker)"
| "userActionOn tracker (Reset sv) = True"
| "userActionOn tracker ev = False"

text \<open>
  The pair for which a call of \<open>shouldLoad\<close> enters the branch of line 121, where the only
  call of \<open>updateAutoBlock\<close> from a request is (line 124); and those pairs along a run.
\<close>

definition newObservation :: "services \<Rightarrow> request \<Rightarrow> state \<Rightarrow> (string \<times> string) option" where
  "newObservation sv rq s =
     (if acceptForReload s then None
      else
        (case classify sv rq s of
           Inr (Some (trackerDomain, contextDomain)) \<Rightarrow>
             if observed s trackerDomain contextDomain then None
             else Some (trackerDomain, contextDomain)
         | _ \<Rightarrow> None))"

fun newObservations :: "event list \<Rightarrow> state \<Rightarrow> (string \<times> string) list" where
  "newObservations [] s = []"
| "newObservations (ShouldLoad sv rq # evs) s =
     (case newObservation sv rq s of None \<Rightarrow> [] | Some p \<Rightarrow> [p])
       @ newObservations evs (step (ShouldLoad sv rq) s)"
| "newObservations (ev # evs) s = newObservations evs (step ev s)"

text \<open>The slot alone: a sequence of writes (line 130) and reads (\<open>unCookier\<close>).\<close>

datatype slot_op = Arm string | Consume string

fun stripped :: "slot_op list \<Rightarrow> state \<Rightarrow> nat" where
  "stripped [] s = 0"
| "stripped (Arm url # ops) s = stripped ops (arm url s)"
| "stripped (Consume uri # ops) s =
     (if fst (unCookier uri s) then 1 else 0) + stripped ops (snd (unCookier uri s))"

fun arms :: "slot_op list \<Rightarrow> nat" where
  "arms [] = 0"
| "arms (Arm url # ops) = Suc (arms ops)"
| "arms (Consume uri # ops) = arms ops"

subsection \<open>Sample inputs\<close>

text \<open>
  A platform where \<open>t.example\<close> has \<open>k\<close> cookies, an image request to it from a page of the
  given host, and the state of a first start with no preferences set.
\<close>

definition sample_services :: "nat \<Rightarrow> services" where
  "sample_services k =
     \<lparr>getBaseDomain = (\<lambda>url. if url = ''http://t.example/p.gif'' then Inr ''t.example''
                                else Inl ServiceFailure),
      getBaseDomainFromHost = (\<lambda>h. Inr h),
      countCookiesFromHost = (\<lambda>d. Inr k)\<rparr>"

definition failing_services :: services where
  "failing_services =
     \<lparr>getBaseDomain = (\<lambda>url. Inr ''t.example''),
      getBaseDomainFromHost = (\<lambda>h. Inr h),
      countCookiesFromHost = (\<lambda>d. Inl ServiceFailure)\<rparr>"

definition sample_request :: "string \<Rightarrow> request" where
  "sample_request h =
     \<lparr>contentType = 3, contentLocation = ''http://t.example/p.gif'',
      topWindow = Inr \<lparr>isPrivate = False, location_host = Inr h\<rparr>\<rparr>"

definition first_start :: state where
  "first_start = main_init None None None [] []"

text \<open>
  A later start: the store holds threshold 2 and \<open>t.example\<close> seen on four sites.
\<close>

definition stored_start :: state where
  "stored_start =
     main_init (Some 2) None
       (Some [(''t.example'', {|''a.example'', ''b.example'', ''c.example'', ''d.example''|})]) [] []"

text \<open>
  A run from the first start: the user sets the threshold to 1, then \<open>t.example\<close>, which has
  no cookies yet, is seen on four sites.
\<close>

definition stale_events :: "event list" where
  "stale_events =
     [SetThreshold (sample_services 0) 1,
      ShouldLoad (sample_services 0) (sample_request ''a.example''),
      ShouldLoad (sample_services 0) (sample_request ''b.example''),
      ShouldLoad (sample_services 0) (sample_request ''c.example''),
      ShouldLoad (sample_services 0) (sample_request ''d.example'')]"

definition stale_state :: state where
  "stale_state = run stale_events first_start"

text \<open>The later start after \<open>updateAutoBlock\<close> has blocked the connections of \<open>t.example\<close>.\<close>

definition blocked_start :: state where
  "blocked_start = stored_start\<lparr>blocked := [''t.example'' \<mapsto> Str AUTO_BLOCK_CONNECTION]\<rparr>"

text \<open>A later start where \<open>t.example\<close> is also a site on which a tracker was seen.\<close>

definition browsed_start :: state where
  "browsed_start =
     main_init (Some 2) None
       (Some [(''t.example'', {|''a.example'', ''b.example'', ''c.example'', ''d.example''|}),
              (''u.example'', {|''t.example''|})]) [] []"






section \<open>Properties\<close>

lemmas sample_defs = stored_start_def main_init_def sample_services_def sample_request_def
  first_start_def failing_services_def

lemmas const_defs = AUTO_BLOCK_COOKIE_def AUTO_BLOCK_CONNECTION_def CONNECTION_MULTIPLIER_def
  DEFAULT_AUTO_BLOCK_THRESHOLD_def TYPE_DOCUMENT_def RELOAD_AUTO_ACCEPT_DURATION_def

lemmas op_defs = get_blocked_def isCookied_def newBlocked_def updateAutoBlock_def
  updateAllAutoBlocked_def set_threshold_def reset_def toggle_block_def classify_def sitesOf_def
  countSites_def observed_def initTracker_def addSite_def recordTracked_def arm_def
  checkBlocked_def shouldLoad_try_def shouldLoad_def unCookier_def onReload_def runTimers_def
  updateDomains_def level_of_def origin_of_def

subsection \<open>Levels and stored values\<close>

lemma level_of_auto_value: "level_of (auto_value l) = l"
  by (cases l) (simp_all add: level_of_def AUTO_BLOCK_COOKIE_def AUTO_BLOCK_CONNECTION_def)

lemma origin_UserSet_iff:
  "origin_of (get_blocked s t) = UserSet \<longleftrightarrow> (\<exists>k. blocked s t = Some (Num k))"
  by (cases "blocked s t"; cases "get_blocked s t")
     (auto simp: origin_of_def get_blocked_def split: option.splits)

lemma origin_not_UserSet: "origin_of v \<noteq> UserSet \<Longrightarrow> \<not> typeof_number v"
  by (simp add: origin_of_def split: if_splits)

subsection \<open>The decision of \<open>updateAutoBlock\<close>\<close>

lemma newBlocked_eq:
  assumes "countCookiesFromHost sv t = Inr k" and "k = 0 \<or> sitesOf s t \<noteq> None"
  shows "newBlocked sv t s =
           Inr (auto_value
               (if k = 0 then NoLevel
                else if autoBlockThreshold s * CONNECTION_MULTIPLIER \<le> countSites s t then
                  (if t \<in> allTracked s then CookieLevel else ConnectionLevel)
                else if autoBlockThreshold s \<le> countSites s t then CookieLevel
                else NoLevel))"
  using assms
  by (auto simp: newBlocked_def isCookied_def countSites_def sitesOf_def Let_def
      split: option.splits)

lemma updateAutoBlock_stores:
  assumes "\<not> typeof_number (get_blocked s t)" and "newBlocked sv t s = Inr v"
  shows "\<exists>changed s'. updateAutoBlock sv t s = (Inr changed, s') \<and> get_blocked s' t = v"
  using assms by (auto simp: updateAutoBlock_def get_blocked_def Let_def)



lemma newBlocked_cases:
  "newBlocked sv t s = Inr v \<Longrightarrow>
     v = Undefined \<or> v = Str AUTO_BLOCK_COOKIE \<or> v = Str AUTO_BLOCK_CONNECTION"
  by (auto simp: newBlocked_def Let_def split: sum.splits if_splits option.splits)

text \<open>
  Both callers of \<open>updateAutoBlock\<close> pass a tracker that has an entry: line 124 runs after
  lines 116-122 have written it, and \<open>updateAllAutoBlocked\<close> walks the keys of
  \<open>storage.trackers\<close>.
\<close>

lemma addSite_has_entry: "sitesOf (addSite t c s) t \<noteq> None"
  by (simp add: sitesOf_def addSite_def update_conv')

lemma keys_have_entry: "t \<in> set (map fst (trackers s)) \<Longrightarrow> sitesOf s t \<noteq> None"
  by (simp add: sitesOf_def map_of_eq_None_iff)

text \<open>
  C1. For a tracker whose stored entry is not a user-set one, \<open>updateAutoBlock\<close> returns
  normally and leaves as the stored value the level: none if the cookie count is 0,
  whatever the number of sites; otherwise, with \<open>n\<close> the number of sites, connection if
  \<open>n \<ge> 2 * threshold\<close> and the tracker is not itself a tracked site, cookie if
  \<open>n \<ge> 2 * threshold\<close> and it is, cookie if \<open>threshold \<le> n < 2 * threshold\<close>, none below. The
  cookie service is assumed to answer, and a cookied tracker to have an entry in
  \<open>storage.trackers\<close>, as it has at both calls.
\<close>

theorem updateAutoBlock_computes_level:
  assumes "origin_of (get_blocked s t) \<noteq> UserSet"
    and "countCookiesFromHost sv t = Inr k"
    and "k = 0 \<or> sitesOf s t \<noteq> None"
  shows "\<exists>changed s'. updateAutoBlock sv t s = (Inr changed, s') \<and>
           get_blocked s' t =
             auto_value
               (if k = 0 then NoLevel
                else if autoBlockThreshold s * CONNECTION_MULTIPLIER \<le> countSites s t then
                  (if t \<in> allTracked s then CookieLevel else ConnectionLevel)
                else if autoBlockThreshold s \<le> countSites s t then CookieLevel
                else NoLevel)"
proof -
  from assms(1) have "\<not> typeof_number (get_blocked s t)"
    by (rule origin_not_UserSet)
  then show ?thesis
    using newBlocked_eq [OF assms(2,3)] by (rule updateAutoBlock_stores)
qed

theorem updateAutoBlock_computes_level_witness:
  "origin_of (get_blocked stored_start ''t.example'') \<noteq> UserSet \<and>
   countCookiesFromHost (sample_services 3) ''t.example'' = Inr 3 \<and>
   sitesOf stored_start ''t.example'' \<noteq> None \<and>
   (\<exists>changed s'. updateAutoBlock (sample_services 3) ''t.example'' stored_start = (Inr changed, s') \<and>
      get_blocked s' ''t.example'' = Str AUTO_BLOCK_CONNECTION)"
proof -
  have h1: "origin_of (get_blocked stored_start ''t.example'') \<noteq> UserSet"
    by (simp add: sample_defs get_blocked_def origin_of_def)
  have h2: "countCookiesFromHost (sample_services 3) ''t.example'' = Inr 3"
    by (simp add: sample_defs)
  have h3: "sitesOf stored_start ''t.example'' \<noteq> None"
    by (simp add: sample_defs sitesOf_def)
  have h3': "(3::nat) = 0 \<or> sitesOf stored_start ''t.example'' \<noteq> None"
    using h3 by simp
  have n: "countSites stored_start ''t.example'' = 4"
    by (simp add: sample_defs sitesOf_def countSites_def fcard_finsert_if)
  have a: "''t.example'' \<notin> allTracked stored_start" "autoBlockThreshold stored_start = 2"
    by (simp_all add: sample_defs)
  show ?thesis
    using h1 h2 h3 updateAutoBlock_computes_level [OF h1 h2 h3']
    by (simp add: n a CONNECTION_MULTIPLIER_def)
qed

subsection \<open>What the operations leave alone\<close>

lemma updateAutoBlock_frame:
  "snd (updateAutoBlock sv t s) = s \<or>
   (\<not> typeof_number (get_blocked s t) \<and>
    (\<exists>v. newBlocked sv t s = Inr v \<and> snd (updateAutoBlock sv t s) = s\<lparr>blocked := (blocked s)(t \<mapsto> v)\<rparr>))"
  by (auto simp: updateAutoBlock_def Let_def split: sum.splits)

lemma updateAutoBlock_keeps:
  assumes "blocked s x = Some (Num k)"
  shows "blocked (snd (updateAutoBlock sv t s)) x = Some (Num k)"
  using updateAutoBlock_frame [of sv t s] assms
  by (auto simp: get_blocked_def)

lemma updateAutoBlock_fields:
  "trackers (snd (updateAutoBlock sv t s)) = trackers s"
  "allTracked (snd (updateAutoBlock sv t s)) = allTracked s"
  "autoBlockThreshold (snd (updateAutoBlock sv t s)) = autoBlockThreshold s"
  using updateAutoBlock_frame [of sv t s] by auto

lemma updateAll_keys_keeps:
  "blocked s x = Some (Num k) \<Longrightarrow> blocked (snd (updateAll_keys sv ks s)) x = Some (Num k)"
proof (induction ks arbitrary: s)
  case Nil
  then show ?case by simp
next
  case (Cons t ks)
  obtain r s' where u: "updateAutoBlock sv t s = (r, s')" by (cases "updateAutoBlock sv t s")
  have k: "blocked s' x = Some (Num k)"
    using updateAutoBlock_keeps [OF Cons.prems, of sv t] u by simp
  show ?case
  proof (cases r)
    case (Inl e)
    with u k show ?thesis by simp
  next
    case (Inr b)
    with u Cons.IH [OF k] show ?thesis by simp
  qed
qed

lemma updateAll_keys_fields:
  "trackers (snd (updateAll_keys sv ks s)) = trackers s \<and>
   allTracked (snd (updateAll_keys sv ks s)) = allTracked s \<and>
   autoBlockThreshold (snd (updateAll_keys sv ks s)) = autoBlockThreshold s"
proof (induction ks arbitrary: s)
  case Nil
  then show ?case by simp
next
  case (Cons t ks)
  obtain r s' where u: "updateAutoBlock sv t s = (r, s')" by (cases "updateAutoBlock sv t s")
  have f: "trackers s' = trackers s" "allTracked s' = allTracked s"
    "autoBlockThreshold s' = autoBlockThreshold s"
    using updateAutoBlock_fields [of sv t s] u by simp_all
  show ?case
  proof (cases r)
    case (Inl e)
    with u f show ?thesis by simp
  next
    case (Inr b)
    with u f Cons.IH [of s'] show ?thesis by simp
  qed
qed

lemma initTracker_blocked: "blocked (initTracker t s) = blocked s"
  by (simp add: initTracker_def)

lemma addSite_blocked: "blocked (addSite t c s) = blocked s"
  by (simp add: addSite_def)

lemma recordTracked_state:
  "snd (recordTracked sv t c s) =
     (if observed (initTracker t s) t c then initTracker t s
      else snd (updateAutoBlock sv t (addSite t c (initTracker t s))))"
  by (simp add: recordTracked_def Let_def split: prod.splits sum.splits)

lemma recordTracked_keeps:
  assumes "recordTracked sv t c s = (r, s')" and "blocked s x = Some (Num k)"
  shows "blocked s' x = Some (Num k)"
proof -
  have "blocked (addSite t c (initTracker t s)) x = Some (Num k)"
    using assms(2) by (simp add: addSite_blocked initTracker_blocked)
  then have "blocked (snd (updateAutoBlock sv t (addSite t c (initTracker t s)))) x = Some (Num k)"
    by (rule updateAutoBlock_keeps)
  then have "blocked (snd (recordTracked sv t c s)) x = Some (Num k)"
    using assms(2) by (simp add: recordTracked_state initTracker_blocked)
  with assms(1) show ?thesis by simp
qed

lemma checkBlocked_blocked: "blocked (snd (checkBlocked t url s)) = blocked s"
  by (simp add: checkBlocked_def arm_def)

lemma shouldLoad_try_keeps:
  assumes "blocked s x = Some (Num k)"
  shows "blocked (snd (shouldLoad_try sv rq s)) x = Some (Num k)"
proof (cases "classify sv rq s")
  case (Inl e)
  then show ?thesis using assms by (simp add: shouldLoad_try_def)
next
  case (Inr p)
  show ?thesis
  proof (cases p)
    case None
    with Inr show ?thesis using assms by (simp add: shouldLoad_try_def)
  next
    case (Some tc)
    obtain t c where tc: "tc = (t, c)" by (cases tc)
    obtain r s' where rt: "recordTracked sv t c s = (r, s')" by (cases "recordTracked sv t c s")
    have k: "blocked s' x = Some (Num k)" using rt assms by (rule recordTracked_keeps)
    show ?thesis
    proof (cases r)
      case (Inl e)
      with Inr Some tc rt k show ?thesis by (simp add: shouldLoad_try_def)
    next
      case r: (Inr u)
      obtain v s'' where cb: "checkBlocked t (contentLocation rq) s' = (v, s'')"
        by (cases "checkBlocked t (contentLocation rq) s'")
      have "blocked s'' = blocked s'" using checkBlocked_blocked [of t "contentLocation rq" s'] cb by simp
      with Inr Some tc rt r cb k show ?thesis by (simp add: shouldLoad_try_def)
    qed
  qed
qed

lemma shouldLoad_state:
  "snd (shouldLoad sv rq s) = (if acceptForReload s then s else snd (shouldLoad_try sv rq s))"
  by (cases "shouldLoad_try sv rq s") (auto simp: shouldLoad_def split: sum.splits option.splits)

lemma shouldLoad_keeps:
  assumes "blocked s x = Some (Num k)"
  shows "blocked (snd (shouldLoad sv rq s)) x = Some (Num k)"
  using assms shouldLoad_try_keeps [OF assms] by (simp add: shouldLoad_state)

lemma step_keeps:
  assumes "blocked s t = Some (Num k)" and "\<not> userActionOn t ev"
  shows "blocked (step ev s) t = Some (Num k)"
proof (cases ev)
  case (ShouldLoad sv rq)
  then show ?thesis using shouldLoad_keeps [OF assms(1)] by simp
next
  case (ModifyRequest uri)
  then show ?thesis using assms by (simp add: unCookier_def split: option.splits)
next
  case (SetThreshold sv n)
  have "blocked (s\<lparr>autoBlockThreshold := n\<rparr>) t = Some (Num k)" using assms by simp
  from updateAll_keys_keeps [OF this] SetThreshold show ?thesis
    by (simp add: set_threshold_def updateAllAutoBlocked_def)
next
  case (ToggleBlock x)
  then show ?thesis using assms by (simp add: toggle_block_def)
next
  case (Reset sv)
  then show ?thesis using assms by simp
next
  case (Reload n)
  then show ?thesis using assms by (simp add: onReload_def)
next
  case (Timers n)
  then show ?thesis using assms by (simp add: runTimers_def)
next
  case (DomainsChanged b ds)
  then show ?thesis using assms by (simp add: updateDomains_def)
qed

text \<open>
  C2. An entry that the user set (a number) is the same after any run of callbacks in
  which the user neither toggles that tracker nor resets: any number of \<open>shouldLoad\<close>
  calls, threshold changes with their re-evaluation of every tracker, cookie removals,
  reloads, timers and preference changes.
\<close>

theorem user_entry_kept:
  assumes "origin_of (get_blocked s t) = UserSet"
    and "\<forall>ev \<in> set evs. \<not> userActionOn t ev"
  shows "blocked (run evs s) t = blocked s t"
proof -
  from assms(1) obtain k where k: "blocked s t = Some (Num k)"
    by (auto simp: origin_UserSet_iff)
  have "blocked (run evs s) t = Some (Num k)"
    using k assms(2)
  proof (induction evs arbitrary: s)
    case Nil
    then show ?case by simp
  next
    case (Cons ev evs)
    have "blocked (step ev s) t = Some (Num k)"
      using Cons.prems by (intro step_keeps) simp_all
    then show ?case using Cons by simp
  qed
  with k show ?thesis by simp
qed

theorem user_entry_kept_witness:
  "origin_of (get_blocked (toggle_block ''t.example'' stored_start) ''t.example'') = UserSet \<and>
   \<not> userActionOn ''t.example'' (ShouldLoad (sample_services 3) (sample_request ''e.example'')) \<and>
   \<not> userActionOn ''t.example'' (SetThreshold (sample_services 3) 1) \<and>
   blocked (run [ShouldLoad (sample_services 3) (sample_request ''e.example''),
                 SetThreshold (sample_services 3) 1]
              (toggle_block ''t.example'' stored_start)) ''t.example'' = Some (Num 1)"
proof -
  have h1: "origin_of (get_blocked (toggle_block ''t.example'' stored_start) ''t.example'') = UserSet"
    by (simp add: sample_defs get_blocked_def origin_of_def toggle_block_def)
  have h2: "\<forall>ev \<in> set [ShouldLoad (sample_services 3) (sample_request ''e.example''),
                 SetThreshold (sample_services 3) 1]. \<not> userActionOn ''t.example'' ev"
    by simp
  have b: "blocked (toggle_block ''t.example'' stored_start) ''t.example'' = Some (Num 1)"
    by (simp add: sample_defs get_blocked_def toggle_block_def)
  show ?thesis
    using h1 h2 user_entry_kept [OF h1 h2] b by simp
qed

subsection \<open>The verdict\<close>

lemma arm_slot: "unCookieNext (arm url s) = Some url"
  by (simp add: arm_def)

text \<open>
  C3. For a request that reaches line 127 (no reload window, a third-party request by
  lines 91-113, lines 115-125 done without an exception, leaving state \<open>s2\<close>): if the stored
  level is cookie or the tracker is in \<open>potentialTrackers\<close>, the slot holds the request's
  URL afterwards (line 130) and the verdict is \<open>ACCEPT\<close>; otherwise, if the stored level is connection, the verdict
  is \<open>REJECT_REQUEST\<close> and the slot is untouched; otherwise \<open>ACCEPT\<close>, slot untouched. The
  level read here is the level written: a value written by \<open>updateAutoBlock\<close> for a level
  reads as that level, and the user's toggle writes 1, read as connection, or 0, read as
  none (a user-set entry never reads as cookie).
\<close>

theorem shouldLoad_enforcement:
  assumes "\<not> acceptForReload s"
    and "classify sv rq s = Inr (Some (t, c))"
    and "recordTracked sv t c s = (Inr u, s2)"
  shows "shouldLoad sv rq s =
           (if level_of (get_blocked s2 t) = CookieLevel \<or> t \<in> potentialTrackers s2
            then (ACCEPT, s2\<lparr>unCookieNext := Some (contentLocation rq)\<rparr>)
            else if level_of (get_blocked s2 t) = ConnectionLevel then (REJECT_REQUEST, s2)
            else (ACCEPT, s2)) \<and>
         level_of (auto_value l) = l \<and>
         level_of (Num 1) = ConnectionLevel \<and> level_of (Num 0) = NoLevel"
proof -
  have "shouldLoad sv rq s =
           (if level_of (get_blocked s2 t) = CookieLevel \<or> t \<in> potentialTrackers s2
            then (ACCEPT, s2\<lparr>unCookieNext := Some (contentLocation rq)\<rparr>)
            else if level_of (get_blocked s2 t) = ConnectionLevel then (REJECT_REQUEST, s2)
            else (ACCEPT, s2))"
    using assms
    by (simp add: shouldLoad_def shouldLoad_try_def checkBlocked_def level_of_def arm_def)
  moreover have "level_of (Num 1) = ConnectionLevel \<and> level_of (Num 0) = NoLevel"
    by (simp add: level_of_def)
  ultimately show ?thesis by (simp add: level_of_auto_value)
qed

theorem shouldLoad_enforcement_witness:
  "\<not> acceptForReload stored_start \<and>
   classify (sample_services 3) (sample_request ''e.example'') stored_start =
     Inr (Some (''t.example'', ''e.example'')) \<and>
   fst (recordTracked (sample_services 3) ''t.example'' ''e.example'' stored_start) = Inr () \<and>
   fst (shouldLoad (sample_services 3) (sample_request ''e.example'') stored_start) = REJECT_REQUEST \<and>
   unCookieNext (snd (shouldLoad (sample_services 3) (sample_request ''e.example'') stored_start)) =
     None \<and>
   \<not> acceptForReload browsed_start \<and>
   classify (sample_services 3) (sample_request ''e.example'') browsed_start =
     Inr (Some (''t.example'', ''e.example'')) \<and>
   fst (recordTracked (sample_services 3) ''t.example'' ''e.example'' browsed_start) = Inr () \<and>
   level_of (get_blocked
       (snd (recordTracked (sample_services 3) ''t.example'' ''e.example'' browsed_start))
       ''t.example'') = CookieLevel \<and>
   fst (shouldLoad (sample_services 3) (sample_request ''e.example'') browsed_start) = ACCEPT \<and>
   unCookieNext (snd (shouldLoad (sample_services 3) (sample_request ''e.example'') browsed_start)) =
     Some ''http://t.example/p.gif'' \<and>
   fst (unCookier ''http://t.example/p.gif''
         (snd (shouldLoad (sample_services 3) (sample_request ''e.example'') browsed_start)))"
proof -
  let ?s2 = "snd (recordTracked (sample_services 3) ''t.example'' ''e.example'' stored_start)"
  let ?b2 = "snd (recordTracked (sample_services 3) ''t.example'' ''e.example'' browsed_start)"
  have h1: "\<not> acceptForReload stored_start"
    by (simp add: sample_defs)
  have h2: "classify (sample_services 3) (sample_request ''e.example'') stored_start =
     Inr (Some (''t.example'', ''e.example''))"
    by (simp add: sample_defs classify_def const_defs)
  have r: "recordTracked (sample_services 3) ''t.example'' ''e.example'' stored_start =
    (Inr (), stored_start\<lparr>trackers := [(''t.example'',
          {|''e.example'', ''a.example'', ''b.example'', ''c.example'', ''d.example''|})],
        allTracked := {''e.example'', ''a.example'', ''b.example'', ''c.example'', ''d.example''},
        blocked := [''t.example'' \<mapsto> Str AUTO_BLOCK_CONNECTION]\<rparr>)"
    by (simp add: sample_defs op_defs const_defs fcard_finsert_if)
  have h3: "recordTracked (sample_services 3) ''t.example'' ''e.example'' stored_start = (Inr (), ?s2)"
    by (simp add: r)
  have l: "level_of (get_blocked ?s2 ''t.example'') = ConnectionLevel"
    "''t.example'' \<notin> potentialTrackers ?s2" "unCookieNext ?s2 = None"
    unfolding r by (simp_all add: level_of_def get_blocked_def const_defs sample_defs)
  have f: "fst (recordTracked (sample_services 3) ''t.example'' ''e.example'' stored_start) = Inr ()"
    by (simp add: r)
  have "shouldLoad (sample_services 3) (sample_request ''e.example'') stored_start =
      (REJECT_REQUEST, ?s2)"
    using shouldLoad_enforcement [OF h1 h2 h3] l by simp
  then have rej: "fst (shouldLoad (sample_services 3) (sample_request ''e.example'') stored_start) =
      REJECT_REQUEST"
    "unCookieNext (snd (shouldLoad (sample_services 3) (sample_request ''e.example'') stored_start)) =
      None"
    using l(3) by simp_all
  have g1: "\<not> acceptForReload browsed_start"
    by (simp add: browsed_start_def main_init_def)
  have g2: "classify (sample_services 3) (sample_request ''e.example'') browsed_start =
     Inr (Some (''t.example'', ''e.example''))"
    by (simp add: browsed_start_def sample_defs classify_def const_defs)
  have rb: "recordTracked (sample_services 3) ''t.example'' ''e.example'' browsed_start =
    (Inr (), browsed_start\<lparr>trackers := [(''t.example'',
          {|''e.example'', ''a.example'', ''b.example'', ''c.example'', ''d.example''|}),
          (''u.example'', {|''t.example''|})],
        allTracked := {''e.example'', ''t.example'', ''a.example'', ''b.example'', ''c.example'',
          ''d.example''},
        blocked := [''t.example'' \<mapsto> Str AUTO_BLOCK_COOKIE]\<rparr>)"
    by (simp add: browsed_start_def sample_defs op_defs const_defs fcard_finsert_if)
  have g3: "recordTracked (sample_services 3) ''t.example'' ''e.example'' browsed_start = (Inr (), ?b2)"
    by (simp add: rb)
  have lb: "level_of (get_blocked ?b2 ''t.example'') = CookieLevel"
    unfolding rb by (simp add: level_of_def get_blocked_def const_defs)
  have fb: "fst (recordTracked (sample_services 3) ''t.example'' ''e.example'' browsed_start) = Inr ()"
    by (simp add: rb)
  have acc: "shouldLoad (sample_services 3) (sample_request ''e.example'') browsed_start =
      (ACCEPT, ?b2\<lparr>unCookieNext := Some (contentLocation (sample_request ''e.example''))\<rparr>)"
    using shouldLoad_enforcement [OF g1 g2 g3] lb by simp
  have a1: "fst (shouldLoad (sample_services 3) (sample_request ''e.example'') browsed_start) = ACCEPT"
    by (simp add: acc)
  have a2: "unCookieNext (snd (shouldLoad (sample_services 3) (sample_request ''e.example'')
      browsed_start)) = Some ''http://t.example/p.gif''"
    unfolding acc by (simp add: sample_request_def)
  have a3: "fst (unCookier ''http://t.example/p.gif''
         (snd (shouldLoad (sample_services 3) (sample_request ''e.example'') browsed_start)))"
    by (simp add: unCookier_def a2)
  show ?thesis using h1 h2 f rej g1 g2 fb lb a1 a2 a3 by blast
qed

text \<open>
  C5. If anything inside the \<open>try\<close> block throws (a failing base-domain service, a context
  without a window, a failing cookie service during \<open>updateAutoBlock\<close>), \<open>shouldLoad\<close>
  returns \<open>ACCEPT\<close>: the result type of \<open>shouldLoad\<close> has no exception and the verdict is
  not \<open>REJECT_REQUEST\<close>.
\<close>

theorem shouldLoad_fails_open:
  assumes "fst (shouldLoad_try sv rq s) = Inl e"
  shows "fst (shouldLoad sv rq s) = ACCEPT"
  using assms by (cases "shouldLoad_try sv rq s") (simp add: shouldLoad_def)

theorem shouldLoad_fails_open_witness:
  "fst (shouldLoad_try failing_services (sample_request ''e.example'') stored_start) =
     Inl ServiceFailure \<and>
   observed (snd (shouldLoad_try failing_services (sample_request ''e.example'') stored_start))
     ''t.example'' ''e.example'' \<and>
   fst (shouldLoad failing_services (sample_request ''e.example'') stored_start) = ACCEPT"
proof -
  have r: "shouldLoad_try failing_services (sample_request ''e.example'') stored_start =
    (Inl ServiceFailure, stored_start\<lparr>trackers := [(''t.example'',
          {|''e.example'', ''a.example'', ''b.example'', ''c.example'', ''d.example''|})],
        allTracked := {''e.example'', ''a.example'', ''b.example'', ''c.example'', ''d.example''}\<rparr>)"
    by (simp add: sample_defs op_defs const_defs)
  have h: "fst (shouldLoad_try failing_services (sample_request ''e.example'') stored_start) =
      Inl ServiceFailure"
    by (simp add: r)
  have o: "observed (snd (shouldLoad_try failing_services (sample_request ''e.example'') stored_start))
     ''t.example'' ''e.example''"
    by (simp add: r observed_def sitesOf_def)
  show ?thesis using h o shouldLoad_fails_open [OF h] by simp
qed

text \<open>
  C10. A request that leaves \<open>shouldLoad\<close> by one of the early returns (reload window
  active; a document load; a private window; tracker domain equal to the context domain;
  tracker domain in \<open>knownNotTrackers\<close>) gets \<open>ACCEPT\<close> and the whole state is unchanged: the
  tracker records, the tracked sites, the stored levels and the cookie slot.
\<close>

theorem early_accept_frame:
  assumes "acceptForReload s \<or> contentType rq = TYPE_DOCUMENT \<or>
     (\<exists>w. topWindow rq = Inr w \<and>
        (isPrivate w \<or>
         (\<exists>t h c. getBaseDomain sv (contentLocation rq) = Inr t \<and> location_host w = Inr h \<and>
            getBaseDomainFromHost sv h = Inr c \<and> (t = c \<or> t \<in> knownNotTrackers s))))"
  shows "shouldLoad sv rq s = (ACCEPT, s)"
  using assms
  by (auto simp: shouldLoad_def shouldLoad_try_def classify_def)

theorem early_accept_frame_witness:
  "shouldLoad (sample_services 3) (sample_request ''t.example'') (arm ''u'' stored_start) =
     (ACCEPT, arm ''u'' stored_start)"
proof -
  have h: "acceptForReload (arm ''u'' stored_start) \<or>
     contentType (sample_request ''t.example'') = TYPE_DOCUMENT \<or>
     (\<exists>w. topWindow (sample_request ''t.example'') = Inr w \<and>
        (isPrivate w \<or>
         (\<exists>t h c. getBaseDomain (sample_services 3) (contentLocation (sample_request ''t.example'')) = Inr t \<and>
            location_host w = Inr h \<and>
            getBaseDomainFromHost (sample_services 3) h = Inr c \<and>
            (t = c \<or> t \<in> knownNotTrackers (arm ''u'' stored_start)))))"
    by (simp add: sample_defs)
  show ?thesis using early_accept_frame [OF h] .
qed

subsection \<open>The cookie slot\<close>

lemma stripped_bound:
  "stripped ops s \<le> arms ops + (if unCookieNext s = None then 0 else 1)"
proof (induction ops arbitrary: s)
  case Nil
  then show ?case by simp
next
  case (Cons op ops)
  show ?case
  proof (cases op)
    case (Arm url)
    have "stripped ops (arm url s) \<le> arms ops + 1"
      using Cons.IH [of "arm url s"] by (simp add: arm_def)
    with Arm show ?thesis by simp
  next
    case (Consume uri)
    have e: "unCookieNext (snd (unCookier uri s)) = None"
      by (simp add: unCookier_def split: option.splits)
    have "stripped ops (snd (unCookier uri s)) \<le> arms ops"
      using Cons.IH [of "snd (unCookier uri s)"] e by simp
    moreover have "fst (unCookier uri s) \<longrightarrow> unCookieNext s \<noteq> None"
      by (simp add: unCookier_def split: option.splits)
    ultimately show ?thesis using Consume by auto
  qed
qed

text \<open>
  C4. \<open>unCookier\<close> strips the cookie header exactly when the slot holds the request's URL,
  and the slot is empty afterwards in every case. So in any sequence of slot writes and
  \<open>unCookier\<close> calls, the number of stripping calls is at most the number of writes (plus one
  if the slot was set at the start); and after a write of \<open>u1\<close> and a call for another URL
  \<open>u2\<close> (no strip, slot emptied), a call for \<open>u1\<close> does not strip.
\<close>

theorem unCookier_one_shot:
  "fst (unCookier u s) = (unCookieNext s = Some u) \<and>
   unCookieNext (snd (unCookier u s)) = None \<and>
   stripped ops s \<le> arms ops + (if unCookieNext s = None then 0 else 1) \<and>
   (u2 \<noteq> u1 \<longrightarrow>
      \<not> fst (unCookier u2 (arm u1 s)) \<and>
      unCookieNext (snd (unCookier u2 (arm u1 s))) = None \<and>
      \<not> fst (unCookier u1 (snd (unCookier u2 (arm u1 s)))))"
  using stripped_bound [of ops s]
  by (auto simp: unCookier_def arm_def split: option.splits)

theorem unCookier_one_shot_witness:
  "''https://a/y'' \<noteq> ''https://a/x'' \<and>
   \<not> fst (unCookier ''https://a/y'' (arm ''https://a/x'' first_start)) \<and>
   unCookieNext (snd (unCookier ''https://a/y'' (arm ''https://a/x'' first_start))) = None \<and>
   \<not> fst (unCookier ''https://a/x'' (snd (unCookier ''https://a/y'' (arm ''https://a/x'' first_start))))"
proof -
  have h: "''https://a/y'' \<noteq> ''https://a/x''" by simp
  show ?thesis
    using h unCookier_one_shot [where ?u2.0 = "''https://a/y''" and ?u1.0 = "''https://a/x''"
        and s = first_start]
    by simp
qed

subsection \<open>Observations\<close>

lemma sitesOf_initTracker:
  "sitesOf (initTracker t s) t' = (if t' = t \<and> sitesOf s t = None then Some {||} else sitesOf s t')"
  by (simp add: initTracker_def sitesOf_def update_conv')

lemma sitesOf_addSite:
  "sitesOf (addSite t c s) t' =
     (if t' = t then Some (finsert c (case sitesOf s t of None \<Rightarrow> {||} | Some sites \<Rightarrow> sites))
      else sitesOf s t')"
  by (simp add: addSite_def sitesOf_def update_conv')

lemma observed_initTracker: "observed (initTracker t s) t' c' = observed s t' c'"
  by (simp add: observed_def sitesOf_initTracker)

lemma observed_addSite: "observed (addSite t c s) t' c' = (observed s t' c' \<or> (t' = t \<and> c' = c))"
  by (auto simp: observed_def sitesOf_addSite split: option.splits)

lemma observed_trackers: "trackers s' = trackers s \<Longrightarrow> observed s' t c = observed s t c"
  by (simp add: observed_def sitesOf_def)

lemma initTracker_observed: "observed s t c \<Longrightarrow> initTracker t s = s"
  by (auto simp: observed_def initTracker_def split: option.splits)

lemma recordTracked_observed: "observed s t c \<Longrightarrow> recordTracked sv t c s = (Inr (), s)"
  by (simp add: recordTracked_def initTracker_observed)

lemma observed_recordTracked:
  "observed (snd (recordTracked sv t c s)) t' c' = (observed s t' c' \<or> (t' = t \<and> c' = c))"
proof (cases "observed s t c")
  case True
  then show ?thesis by (auto simp: recordTracked_observed)
next
  case False
  have "observed (snd (updateAutoBlock sv t (addSite t c (initTracker t s)))) t' c' =
      observed (addSite t c (initTracker t s)) t' c'"
    by (rule observed_trackers) (rule updateAutoBlock_fields)
  with False show ?thesis
    by (simp add: recordTracked_state observed_initTracker observed_addSite)
qed

lemma checkBlocked_trackers: "trackers (snd (checkBlocked t url s)) = trackers s"
  by (simp add: checkBlocked_def arm_def)

lemma shouldLoad_try_cases:
  "(classify sv rq s = Inr (Some (t, c)) \<Longrightarrow>
      snd (shouldLoad_try sv rq s) = snd (recordTracked sv t c s) \<or>
      snd (shouldLoad_try sv rq s) =
        snd (checkBlocked t (contentLocation rq) (snd (recordTracked sv t c s))))"
  by (auto simp: shouldLoad_try_def split: prod.splits sum.splits)

lemma shouldLoad_try_early:
  "(\<And>t c. classify sv rq s \<noteq> Inr (Some (t, c))) \<Longrightarrow> snd (shouldLoad_try sv rq s) = s"
  by (auto simp: shouldLoad_try_def split: prod.splits sum.splits option.splits)

lemma observed_shouldLoad:
  "observed (snd (shouldLoad sv rq s)) t c = (observed s t c \<or> newObservation sv rq s = Some (t, c))"
proof (cases "acceptForReload s")
  case True
  then show ?thesis by (simp add: shouldLoad_state newObservation_def)
next
  case False
  show ?thesis
  proof (cases "\<exists>t0 c0. classify sv rq s = Inr (Some (t0, c0))")
    case True
    then obtain t0 c0 where cl: "classify sv rq s = Inr (Some (t0, c0))" by blast
    have "observed (snd (shouldLoad_try sv rq s)) t c = observed (snd (recordTracked sv t0 c0 s)) t c"
      using shouldLoad_try_cases [OF cl]
      by (auto simp: observed_trackers [OF checkBlocked_trackers])
    then show ?thesis using False cl
      by (auto simp: shouldLoad_state observed_recordTracked newObservation_def)
  next
    case nothird: False
    then have "snd (shouldLoad_try sv rq s) = s" by (intro shouldLoad_try_early) blast
    moreover have "newObservation sv rq s = None"
      using nothird by (auto simp: newObservation_def split: sum.splits option.splits)
    ultimately show ?thesis using False by (simp add: shouldLoad_state)
  qed
qed

lemma updateAllAutoBlocked_trackers: "trackers (snd (updateAllAutoBlocked sv s)) = trackers s"
  by (simp add: updateAllAutoBlocked_def updateAll_keys_fields)

lemma observed_step:
  assumes "observed s t c"
  shows "observed (step ev s) t c"
proof (cases ev)
  case (ShouldLoad sv rq)
  then show ?thesis using assms by (simp add: observed_shouldLoad)
next
  case (ModifyRequest uri)
  have "trackers (snd (unCookier uri s)) = trackers s"
    by (simp add: unCookier_def split: option.splits)
  then have "observed (step ev s) t c = observed s t c"
    unfolding ModifyRequest step.simps by (rule observed_trackers)
  then show ?thesis using assms by simp
next
  case (SetThreshold sv n)
  have "trackers (snd (set_threshold sv n s)) = trackers s"
    by (simp add: set_threshold_def updateAllAutoBlocked_trackers)
  then have "observed (step ev s) t c = observed s t c"
    unfolding SetThreshold step.simps by (rule observed_trackers)
  then show ?thesis using assms by simp
next
  case (ToggleBlock x)
  have "trackers (toggle_block x s) = trackers s" by (simp add: toggle_block_def)
  then have "observed (step ev s) t c = observed s t c"
    unfolding ToggleBlock step.simps by (rule observed_trackers)
  then show ?thesis using assms by simp
next
  case (Reset sv)
  have "trackers (snd (reset sv s)) = trackers s"
    by (simp add: reset_def updateAllAutoBlocked_trackers)
  then have "observed (step ev s) t c = observed s t c"
    unfolding Reset step.simps by (rule observed_trackers)
  then show ?thesis using assms by simp
next
  case (Reload n)
  have "trackers (onReload n s) = trackers s" by (simp add: onReload_def)
  then have "observed (step ev s) t c = observed s t c"
    unfolding Reload step.simps by (rule observed_trackers)
  then show ?thesis using assms by simp
next
  case (Timers n)
  have "trackers (runTimers n s) = trackers s" by (simp add: runTimers_def)
  then have "observed (step ev s) t c = observed s t c"
    unfolding Timers step.simps by (rule observed_trackers)
  then show ?thesis using assms by simp
next
  case (DomainsChanged b ds)
  have "trackers (updateDomains b ds s) = trackers s" by (simp add: updateDomains_def)
  then have "observed (step ev s) t c = observed s t c"
    unfolding DomainsChanged step.simps by (rule observed_trackers)
  then show ?thesis using assms by simp
qed

lemma newObservation_Some:
  "newObservation sv rq s = Some (t, c) \<Longrightarrow> \<not> observed s t c"
  by (simp add: newObservation_def split: if_splits sum.splits option.splits prod.splits)

lemma newObservations_fresh:
  "p \<in> set (newObservations evs s) \<Longrightarrow> \<not> observed s (fst p) (snd p)"
proof (induction evs arbitrary: s)
  case Nil
  then show ?case by simp
next
  case (Cons ev evs)
  have later: "\<not> observed s (fst p) (snd p)" if "p \<in> set (newObservations evs (step ev s))"
  proof -
    from that have "\<not> observed (step ev s) (fst p) (snd p)" by (rule Cons.IH)
    then show ?thesis using observed_step by blast
  qed
  show ?case
  proof (cases ev)
    case (ShouldLoad sv rq)
    show ?thesis
    proof (cases "newObservation sv rq s = Some p")
      case True
      then show ?thesis using newObservation_Some [of sv rq s "fst p" "snd p"] by simp
    next
      case False
      with Cons.prems ShouldLoad have "p \<in> set (newObservations evs (step ev s))"
        by (cases "newObservation sv rq s") auto
      then show ?thesis by (rule later)
    qed
  qed (use Cons.prems later in simp_all)
qed

lemma newObservations_distinct: "distinct (newObservations evs s)"
proof (induction evs arbitrary: s)
  case Nil
  then show ?case by simp
next
  case (Cons ev evs)
  show ?case
  proof (cases ev)
    case (ShouldLoad sv rq)
    show ?thesis
    proof (cases "newObservation sv rq s")
      case None
      with ShouldLoad Cons.IH show ?thesis by simp
    next
      case (Some p)
      have "observed (step (ShouldLoad sv rq) s) (fst p) (snd p)"
        using Some by (cases p) (simp add: observed_shouldLoad)
      then have "p \<notin> set (newObservations evs (step (ShouldLoad sv rq) s))"
        using newObservations_fresh by blast
      with Some ShouldLoad Cons.IH show ?thesis by simp
    qed
  qed (simp_all add: Cons.IH)
qed

text \<open>
  C8. When the site is already recorded for the tracker, lines 115-125 change nothing and
  do not call \<open>updateAutoBlock\<close> (the result is the unchanged state whatever the cookie
  service would do); a call of \<open>shouldLoad\<close> that is not a new observation leaves the
  records, the tracked sites and every stored level as they were; and along any run of
  callbacks the pairs at which \<open>shouldLoad\<close> records a new observation (the only place where
  a request calls \<open>updateAutoBlock\<close>) are pairwise different and were not recorded at the
  start.
\<close>

theorem observation_once:
  "(observed s t c \<longrightarrow> recordTracked sv t c s = (Inr (), s)) \<and>
   (newObservation sv rq s = None \<longrightarrow>
      trackers (snd (shouldLoad sv rq s)) = trackers s \<and>
      allTracked (snd (shouldLoad sv rq s)) = allTracked s \<and>
      blocked (snd (shouldLoad sv rq s)) = blocked s) \<and>
   distinct (newObservations evs s) \<and>
   (\<forall>p \<in> set (newObservations evs s). \<not> observed s (fst p) (snd p))"
proof -
  have a: "trackers (snd (shouldLoad sv rq s)) = trackers s \<and>
      allTracked (snd (shouldLoad sv rq s)) = allTracked s \<and>
      blocked (snd (shouldLoad sv rq s)) = blocked s" if n: "newObservation sv rq s = None"
  proof (cases "acceptForReload s")
    case True
    then show ?thesis by (simp add: shouldLoad_state)
  next
    case False
    show ?thesis
    proof (cases "\<exists>t0 c0. classify sv rq s = Inr (Some (t0, c0))")
      case True
      then obtain t0 c0 where cl: "classify sv rq s = Inr (Some (t0, c0))" by blast
      with n False have "observed s t0 c0"
        by (simp add: newObservation_def split: if_splits)
      then have "recordTracked sv t0 c0 s = (Inr (), s)" by (rule recordTracked_observed)
      with cl False show ?thesis
        by (simp add: shouldLoad_state shouldLoad_try_def checkBlocked_def arm_def
            split: prod.splits)
    next
      case nothird: False
      then have "snd (shouldLoad_try sv rq s) = s" by (intro shouldLoad_try_early) blast
      with False show ?thesis by (simp add: shouldLoad_state)
    qed
  qed
  have b: "observed s t c \<longrightarrow> recordTracked sv t c s = (Inr (), s)"
    by (simp add: recordTracked_observed)
  have c: "\<forall>p \<in> set (newObservations evs s). \<not> observed s (fst p) (snd p)"
    by (intro ballI) (rule newObservations_fresh)
  show ?thesis
    using a b c newObservations_distinct [of evs s] by simp
qed

theorem observation_once_witness:
  "observed stored_start ''t.example'' ''a.example'' \<and>
   recordTracked (sample_services 3) ''t.example'' ''a.example'' stored_start =
     (Inr (), stored_start) \<and>
   newObservation (sample_services 3) (sample_request ''a.example'') stored_start = None \<and>
   blocked (snd (shouldLoad (sample_services 3) (sample_request ''a.example'') stored_start)) =
     blocked stored_start \<and>
   newObservations
     [ShouldLoad (sample_services 3) (sample_request ''e.example''),
      ShouldLoad (sample_services 3) (sample_request ''e.example'')] stored_start =
     [(''t.example'', ''e.example'')] \<and>
   \<not> observed stored_start ''t.example'' ''e.example''"
proof -
  have h1: "observed stored_start ''t.example'' ''a.example''"
    by (simp add: sample_defs observed_def sitesOf_def)
  have h2: "newObservation (sample_services 3) (sample_request ''a.example'') stored_start = None"
    by (simp add: newObservation_def sample_defs classify_def const_defs observed_def sitesOf_def)
  have s1: "snd (shouldLoad (sample_services 3) (sample_request ''e.example'') stored_start) =
    stored_start\<lparr>trackers := [(''t.example'',
          {|''e.example'', ''a.example'', ''b.example'', ''c.example'', ''d.example''|})],
        allTracked := {''e.example'', ''a.example'', ''b.example'', ''c.example'', ''d.example''},
        blocked := [''t.example'' \<mapsto> Str AUTO_BLOCK_CONNECTION]\<rparr>"
    by (simp add: sample_defs op_defs const_defs fcard_finsert_if)
  have n1: "newObservation (sample_services 3) (sample_request ''e.example'') stored_start =
      Some (''t.example'', ''e.example'')"
    by (simp add: newObservation_def sample_defs classify_def const_defs observed_def sitesOf_def)
  have n2: "newObservation (sample_services 3) (sample_request ''e.example'')
      (snd (shouldLoad (sample_services 3) (sample_request ''e.example'') stored_start)) = None"
    unfolding s1
    by (simp add: newObservation_def sample_defs classify_def const_defs observed_def sitesOf_def)
  have h3: "newObservations
     [ShouldLoad (sample_services 3) (sample_request ''e.example''),
      ShouldLoad (sample_services 3) (sample_request ''e.example'')] stored_start =
     [(''t.example'', ''e.example'')]"
    by (simp add: n1 n2)
  show ?thesis
    using h1 h2 h3
      observation_once [where s = stored_start and t = "''t.example''" and c = "''a.example''"
        and sv = "sample_services 3" and rq = "sample_request ''a.example''"
        and evs = "[ShouldLoad (sample_services 3) (sample_request ''e.example''),
          ShouldLoad (sample_services 3) (sample_request ''e.example'')]"]
    by simp
qed

subsection \<open>Raising the threshold\<close>

lemma stale_state_eq:
  "stale_state =
     \<lparr>autoBlockThreshold = 1, blocked = Map.empty,
      trackers = [(''t.example'', {|''d.example'', ''c.example'', ''b.example'', ''a.example''|})],
      allTracked = {''d.example'', ''c.example'', ''b.example'', ''a.example''},
      unCookieNext = None, acceptForReload = False, knownNotTrackers = {},
      potentialTrackers = {}, timers = []\<rparr>"
  by (simp add: stale_state_def stale_events_def sample_defs op_defs const_defs fcard_finsert_if)

lemma stale_after:
  "snd (set_threshold (sample_services 1) 2 stale_state) =
     stale_state\<lparr>autoBlockThreshold := 2, blocked := [''t.example'' \<mapsto> Str AUTO_BLOCK_CONNECTION]\<rparr>"
  unfolding stale_state_eq
  by (simp add: sample_defs op_defs const_defs fcard_finsert_if)

text \<open>
  C7, as stated, fails. In the run above \<open>t.example\<close> is on four sites with no stored level
  (it had no cookies when it was evaluated). It has a cookie by the time the user raises
  the threshold from 1 to 2: the re-evaluation of all trackers gives it the connection
  level, with the same four sites.
\<close>

theorem raise_threshold_counterexample:
  "origin_of (get_blocked stale_state ''t.example'') \<noteq> UserSet \<and>
   level_of (get_blocked stale_state ''t.example'') = NoLevel \<and>
   autoBlockThreshold stale_state < 2 \<and>
   countSites (snd (set_threshold (sample_services 1) 2 stale_state)) ''t.example'' =
     countSites stale_state ''t.example'' \<and>
   level_of (get_blocked (snd (set_threshold (sample_services 1) 2 stale_state)) ''t.example'') =
     ConnectionLevel"
  unfolding stale_after unfolding stale_state_eq
  by (simp add: op_defs const_defs)

lemma newBlocked_mono:
  assumes "newBlocked sv t s = Inr v" and "newBlocked sv t s1 = Inr v1"
    and "trackers s1 = trackers s" and "allTracked s1 = allTracked s"
    and "autoBlockThreshold s \<le> autoBlockThreshold s1"
  shows "rank (level_of v1) \<le> rank (level_of v)"
proof -
  obtain k where k: "countCookiesFromHost sv t = Inr k"
    using assms(1)
    by (cases "countCookiesFromHost sv t") (simp_all add: newBlocked_def isCookied_def)
  have e: "k = 0 \<or> sitesOf s t \<noteq> None"
    using assms(1) k
    by (cases "map_of (trackers s) t"; cases "k = 0")
      (simp_all add: newBlocked_def isCookied_def sitesOf_def)
  have e1: "k = 0 \<or> sitesOf s1 t \<noteq> None"
    using e assms(3) by (simp add: sitesOf_def)
  have cs: "countSites s1 t = countSites s t"
    using assms(3) by (simp add: countSites_def sitesOf_def)
  have v: "v = auto_value
               (if k = 0 then NoLevel
                else if autoBlockThreshold s * CONNECTION_MULTIPLIER \<le> countSites s t then
                  (if t \<in> allTracked s then CookieLevel else ConnectionLevel)
                else if autoBlockThreshold s \<le> countSites s t then CookieLevel
                else NoLevel)"
    using newBlocked_eq [OF k e] assms(1) by simp
  have v1: "v1 = auto_value
               (if k = 0 then NoLevel
                else if autoBlockThreshold s1 * CONNECTION_MULTIPLIER \<le> countSites s t then
                  (if t \<in> allTracked s then CookieLevel else ConnectionLevel)
                else if autoBlockThreshold s1 \<le> countSites s t then CookieLevel
                else NoLevel)"
    using newBlocked_eq [OF k e1] assms(2) by (simp add: cs assms(4))
  show ?thesis
    unfolding v v1 level_of_auto_value
    using assms(5) by (simp add: CONNECTION_MULTIPLIER_def)
qed

lemma updateAutoBlock_fresh:
  assumes "\<not> typeof_number (get_blocked s t)" and "fst (updateAutoBlock sv t s) = Inr False"
  shows "newBlocked sv t s = Inr (get_blocked s t)"
  using assms
  by (auto simp: updateAutoBlock_def Let_def split: sum.splits if_splits)

lemma updateAll_keys_mono:
  assumes "newBlocked sv t s0 = Inr v0"
    and "trackers s1 = trackers s0" and "allTracked s1 = allTracked s0"
    and "autoBlockThreshold s0 \<le> autoBlockThreshold s1"
    and "\<not> typeof_number (get_blocked s1 t)"
    and "rank (level_of (get_blocked s1 t)) \<le> rank (level_of v0)"
  shows "rank (level_of (get_blocked (snd (updateAll_keys sv ks s1)) t)) \<le> rank (level_of v0)"
  using assms(2-)
proof (induction ks arbitrary: s1)
  case Nil
  then show ?case by simp
next
  case (Cons k ks)
  obtain r s2 where u: "updateAutoBlock sv k s1 = (r, s2)" by (cases "updateAutoBlock sv k s1")
  have f: "trackers s2 = trackers s0" "allTracked s2 = allTracked s0"
    "autoBlockThreshold s0 \<le> autoBlockThreshold s2"
    using updateAutoBlock_fields [of sv k s1] u Cons.prems by simp_all
  have g: "\<not> typeof_number (get_blocked s2 t) \<and>
      rank (level_of (get_blocked s2 t)) \<le> rank (level_of v0)"
  proof -
    from updateAutoBlock_frame [of sv k s1] u
    consider "s2 = s1"
      | v where "newBlocked sv k s1 = Inr v" "s2 = s1\<lparr>blocked := (blocked s1)(k \<mapsto> v)\<rparr>"
      by auto
    then show ?thesis
    proof cases
      case 1
      then show ?thesis using Cons.prems by simp
    next
      case 2
      show ?thesis
      proof (cases "k = t")
        case True
        have "rank (level_of v) \<le> rank (level_of v0)"
          using assms(1) 2(1) Cons.prems(1-3) unfolding True by (rule newBlocked_mono)
        moreover have "\<not> typeof_number v"
          using newBlocked_cases [OF 2(1)] by auto
        ultimately show ?thesis using 2(2) True by (simp add: get_blocked_def)
      next
        case False
        then have "get_blocked s2 t = get_blocked s1 t"
          using 2(2) by (simp add: get_blocked_def)
        then show ?thesis using Cons.prems by simp
      qed
    qed
  qed
  show ?case
  proof (cases r)
    case (Inl e)
    with u g show ?thesis by simp
  next
    case (Inr b)
    have "rank (level_of (get_blocked (snd (updateAll_keys sv ks s2)) t)) \<le> rank (level_of v0)"
      using f g by (intro Cons.IH) simp_all
    with u Inr show ?thesis by simp
  qed
qed

lemma rank_Connection: "rank l \<le> rank l' \<Longrightarrow> l = ConnectionLevel \<Longrightarrow> l' = ConnectionLevel"
  by (cases l') simp_all

text \<open>
  C7, amended. Take a tracker whose entry is not user-set and is up to date: running
  \<open>updateAutoBlock\<close> on it now, with the present cookie service, would change nothing. Then
  after \<open>set_threshold\<close> with a threshold that is not lower (and the same cookie service)
  the site count is the same and the level is the same or lower in the order none, cookie,
  connection; in particular it is connection only if it was.
\<close>

theorem raise_threshold_monotone:
  assumes "origin_of (get_blocked s t) \<noteq> UserSet"
    and "fst (updateAutoBlock sv t s) = Inr False"
    and "autoBlockThreshold s \<le> threshold"
  shows "rank (level_of (get_blocked (snd (set_threshold sv threshold s)) t))
           \<le> rank (level_of (get_blocked s t)) \<and>
         (level_of (get_blocked (snd (set_threshold sv threshold s)) t) = ConnectionLevel
            \<longrightarrow> level_of (get_blocked s t) = ConnectionLevel) \<and>
         countSites (snd (set_threshold sv threshold s)) t = countSites s t"
proof -
  let ?s1 = "s\<lparr>autoBlockThreshold := threshold\<rparr>"
  have nn: "\<not> typeof_number (get_blocked s t)"
    using assms(1) by (rule origin_not_UserSet)
  have fresh: "newBlocked sv t s = Inr (get_blocked s t)"
    using nn assms(2) by (rule updateAutoBlock_fresh)
  have g: "get_blocked ?s1 t = get_blocked s t" by (simp add: get_blocked_def)
  have r: "rank (level_of (get_blocked (snd (updateAll_keys sv (map fst (trackers ?s1)) ?s1)) t))
      \<le> rank (level_of (get_blocked s t))"
    using fresh
  proof (rule updateAll_keys_mono)
    show "trackers ?s1 = trackers s" by simp
    show "allTracked ?s1 = allTracked s" by simp
    show "autoBlockThreshold s \<le> autoBlockThreshold ?s1" using assms(3) by simp
    show "\<not> typeof_number (get_blocked ?s1 t)" using nn g by simp
    show "rank (level_of (get_blocked ?s1 t)) \<le> rank (level_of (get_blocked s t))"
      using g by simp
  qed
  then have a: "rank (level_of (get_blocked (snd (set_threshold sv threshold s)) t))
      \<le> rank (level_of (get_blocked s t))"
    by (simp add: set_threshold_def updateAllAutoBlocked_def)
  have "trackers (snd (set_threshold sv threshold s)) = trackers s"
    by (simp add: set_threshold_def updateAllAutoBlocked_def updateAll_keys_fields)
  then have c: "countSites (snd (set_threshold sv threshold s)) t = countSites s t"
    by (simp add: countSites_def sitesOf_def)
  show ?thesis using a c rank_Connection [OF a] by blast
qed

theorem raise_threshold_monotone_witness:
  "origin_of (get_blocked blocked_start ''t.example'') \<noteq> UserSet \<and>
   fst (updateAutoBlock (sample_services 3) ''t.example'' blocked_start) = Inr False \<and>
   autoBlockThreshold blocked_start \<le> 3 \<and>
   level_of (get_blocked blocked_start ''t.example'') = ConnectionLevel \<and>
   level_of (get_blocked (snd (set_threshold (sample_services 3) 3 blocked_start)) ''t.example'') =
     CookieLevel \<and>
   rank (level_of (get_blocked (snd (set_threshold (sample_services 3) 3 blocked_start)) ''t.example''))
     \<le> rank (level_of (get_blocked blocked_start ''t.example''))"
proof -
  have h1: "origin_of (get_blocked blocked_start ''t.example'') \<noteq> UserSet"
    by (simp add: blocked_start_def sample_defs get_blocked_def origin_of_def)
  have h2: "fst (updateAutoBlock (sample_services 3) ''t.example'' blocked_start) = Inr False"
    by (simp add: blocked_start_def sample_defs op_defs const_defs fcard_finsert_if)
  have h3: "autoBlockThreshold blocked_start \<le> 3"
    by (simp add: blocked_start_def sample_defs)
  have b: "level_of (get_blocked blocked_start ''t.example'') = ConnectionLevel"
    by (simp add: blocked_start_def sample_defs get_blocked_def level_of_def const_defs)
  have a: "level_of (get_blocked (snd (set_threshold (sample_services 3) 3 blocked_start))
      ''t.example'') = CookieLevel"
    by (simp add: blocked_start_def sample_defs op_defs const_defs fcard_finsert_if
        fcard_fempty Let_def)
  show ?thesis
    using h1 h2 h3 b a raise_threshold_monotone [OF h1 h2 h3] by simp
qed

subsection \<open>Trackers the user browses\<close>














subsection \<open>Reload\<close>

text \<open>
  C9 asks that with overlapping reloads the window stays open until the callback of the
  last reload runs. Here \<open>t.example\<close> has its connections blocked; reloads at 0 ms and at
  5000 ms, the event loop at 10000 ms. While the window is open a request to \<open>t.example\<close>
  is accepted. At 10000 ms the callback of the first reload runs and closes the window,
  while the callback of the second reload (due at 15000 ms) is still pending, and the
  request is rejected.
\<close>

theorem reload_window_cut_short:
  "fst (shouldLoad (sample_services 3) (sample_request ''a.example'')
         (onReload 5000 (onReload 0 blocked_start))) = ACCEPT \<and>
   timers (onReload 5000 (onReload 0 blocked_start)) = [10000, 15000] \<and>
   \<not> acceptForReload (runTimers 10000 (onReload 5000 (onReload 0 blocked_start))) \<and>
   timers (runTimers 10000 (onReload 5000 (onReload 0 blocked_start))) = [15000] \<and>
   fst (shouldLoad (sample_services 3) (sample_request ''a.example'')
         (runTimers 10000 (onReload 5000 (onReload 0 blocked_start)))) = REJECT_REQUEST"
  by (simp add: blocked_start_def sample_defs op_defs const_defs)

end
